theory Spec2Isabelle
  imports Complex_Main "HOL-Library.Sublist" "HOL-Library.List_Lexorder" "HOL-Library.Char_ord"
begin

section \<open>Python string primitives\<close>

text \<open>
  Python \<open>str\<close> values are modelled as \<open>string\<close>; a character stands for a code point
  below 256. Python floats are modelled as exact reals: rounding error of the binary
  floating-point arithmetic is not part of the model.
\<close>

text \<open>The code points below 256 for which \<open>str.isspace\<close> holds; \<open>str.strip()\<close>,
  \<open>str.split()\<close> and the regular expression class \<open>\s\<close> all use this set.\<close>

definition py_whitespace :: "char list" where
  "py_whitespace = [CHR 0x09, CHR 0x0A, CHR 0x0B, CHR 0x0C, CHR 0x0D,
     CHR 0x1C, CHR 0x1D, CHR 0x1E, CHR 0x1F, CHR 0x20, CHR 0x85, CHR 0xA0]"

definition py_isspace :: "char \<Rightarrow> bool" where
  "py_isspace c = (c \<in> set py_whitespace)"

text \<open>\<open>str.lower()\<close> on code points below 256: A-Z and the Latin-1 capitals move by 32.\<close>

definition py_lower_char :: "char \<Rightarrow> char" where
  "py_lower_char c =
     (let n = (of_char c :: nat)
      in if (65 \<le> n \<and> n \<le> 90) \<or> (192 \<le> n \<and> n \<le> 222 \<and> n \<noteq> 215)
         then char_of (n + 32) else c)"

definition py_lower :: "string \<Rightarrow> string" where
  "py_lower s = map py_lower_char s"

text \<open>\<open>str.strip()\<close>: drop leading and trailing whitespace.\<close>

definition py_strip :: "string \<Rightarrow> string" where
  "py_strip s = rev (dropWhile py_isspace (rev (dropWhile py_isspace s)))"

text \<open>\<open>str.split()\<close> without separator: the maximal runs of non-whitespace characters.
  The first argument is the word read so far, reversed.\<close>

fun split_ws_from :: "string \<Rightarrow> string \<Rightarrow> string list" where
  "split_ws_from cur [] = (if cur = [] then [] else [rev cur])"
| "split_ws_from cur (c # cs) =
     (if py_isspace c
      then (if cur = [] then split_ws_from [] cs else rev cur # split_ws_from [] cs)
      else split_ws_from (c # cur) cs)"

definition py_split_ws :: "string \<Rightarrow> string list" where
  "py_split_ws s = split_ws_from [] s"

section \<open>Search results and configuration\<close>

text \<open>A search result is a Python dict; a key that is absent reads as \<open>None\<close>.
  \<open>NonDict\<close> stands for any list entry that is not a dict (the code guards against it
  with \<open>isinstance\<close>).\<close>

datatype page = PageNum int | PageStr string

record result_dict =
  r_text :: "string option"
  r_title :: "string option"
  r_page :: "page option"
  r_score :: "real option"
  r_chunk_id :: "string option"

datatype entry = Dict result_dict | NonDict

text \<open>\<open>Config.SCORE_THRESHOLD = float(os.getenv("SCORE_THRESHOLD", "-2.0"))\<close>: the configured
  value is a parameter of the gate, this is its default.\<close>

definition SCORE_THRESHOLD_default :: real where
  "SCORE_THRESHOLD_default = - 2"

text \<open>\<open>result.get('score', 0.0)\<close>\<close>

definition get_score :: "result_dict \<Rightarrow> real" where
  "get_score d = (case r_score d of None \<Rightarrow> 0 | Some s \<Rightarrow> s)"

section \<open>Retrieval confidence gate (\<open>RAGSystem._check_retrieval_confidence\<close>)\<close>

definition industrial_keywords :: "string list" where
  "industrial_keywords =
    [''temperature'', ''pressure'', ''alarm'', ''control'', ''valve'', ''sensor'',
     ''calibration'', ''maintenance'', ''safety'', ''procedure'', ''process'',
     ''emergency'', ''shutdown'', ''troubleshooting'', ''psi'', ''celsius'', ''degrees'',
     ''flow'', ''pump'', ''system'', ''operating'', ''calibrate'', ''high'', ''low'',
     ''normal'', ''range'', ''setpoint'', ''instrumentation'']"

text \<open>\<open>bool(set(query.lower().split()).intersection(industrial_keywords))\<close>\<close>

definition has_industrial_context :: "string \<Rightarrow> bool" where
  "has_industrial_context query =
     list_ex (\<lambda>w. w \<in> set industrial_keywords) (py_split_ws (py_lower query))"

definition check_retrieval_confidence :: "real \<Rightarrow> entry list \<Rightarrow> string \<Rightarrow> bool" where
  "check_retrieval_confidence score_threshold results query =
     (case results of
        [] \<Rightarrow> False
      | top_result # _ \<Rightarrow>
          (case top_result of
             NonDict \<Rightarrow> False
           | Dict d \<Rightarrow>
               (let top_score = get_score d;
                    (similarity, confidence_threshold) =
                       (if top_score < 0
                        then (1 / (1 + \<bar>top_score\<bar>), 0.5)
                        else (top_score, score_threshold));
                    confidence_threshold' =
                       (if \<not> has_industrial_context query then 0.8 else confidence_threshold)
                in similarity \<ge> confidence_threshold')))"

section \<open>Citation formatter (\<open>format_citations\<close>)\<close>

record citation =
  c_title :: string
  c_page :: page
  c_score :: real

text \<open>Python's \<open>round(x)\<close> goes to the nearest integer, a tie to the even one;
  \<open>round(x, 3)\<close> does so at the third decimal.\<close>

definition py_round :: "real \<Rightarrow> int" where
  "py_round x =
     (let f = \<lfloor>x\<rfloor>; d = x - of_int f
      in if d < 1 / 2 then f else if 1 / 2 < d then f + 1
         else if even f then f else f + 1)"

definition round3 :: "real \<Rightarrow> real" where
  "round3 x = of_int (py_round (x * 1000)) / 1000"

text \<open>\<open>not result\<close> holds for the empty dict as for \<open>None\<close>.\<close>

definition dict_is_empty :: "result_dict \<Rightarrow> bool" where
  "dict_is_empty d =
     (r_text d = None \<and> r_title d = None \<and> r_page d = None \<and> r_score d = None
      \<and> r_chunk_id d = None)"

definition similarity_score :: "real \<Rightarrow> real" where
  "similarity_score raw_score =
     (if raw_score < 0 then 1 / (1 + \<bar>raw_score\<bar>) else raw_score)"

definition format_citation :: "result_dict \<Rightarrow> citation" where
  "format_citation d =
     \<lparr> c_title = (case r_title d of None \<Rightarrow> ''Unknown'' | Some t \<Rightarrow> t),
       c_page = (case r_page d of None \<Rightarrow> PageStr ''N/A'' | Some p \<Rightarrow> p),
       c_score = round3 (similarity_score (get_score d)) \<rparr>"

fun format_citations :: "entry list \<Rightarrow> citation list" where
  "format_citations [] = []"
| "format_citations (NonDict # results) = format_citations results"
| "format_citations (Dict d # results) =
     (if dict_is_empty d then format_citations results
      else format_citation d # format_citations results)"


section \<open>Text chunker (\<open>chunk_text\<close>)\<close>

text \<open>\<open>Config.CHUNK_SIZE\<close> and \<open>Config.CHUNK_OVERLAP\<close>\<close>

definition CHUNK_SIZE :: int where "CHUNK_SIZE = 600"
definition CHUNK_OVERLAP :: int where "CHUNK_OVERLAP = 100"

text \<open>\<open>value or default\<close> on an optional integer: \<open>None\<close> and 0 are falsy.\<close>

definition py_or :: "int option \<Rightarrow> int \<Rightarrow> int" where
  "py_or v dflt = (case v of None \<Rightarrow> dflt | Some n \<Rightarrow> if n = 0 then dflt else n)"

text \<open>Python slicing \<open>xs[i:j]\<close> and \<open>xs[i:]\<close>: a negative index counts from the end, and
  every index is clamped to the list.\<close>

definition py_index :: "nat \<Rightarrow> int \<Rightarrow> nat" where
  "py_index n i = (if i < 0 then nat (max 0 (i + int n)) else min (nat i) n)"

definition py_slice :: "'a list \<Rightarrow> int \<Rightarrow> int \<Rightarrow> 'a list" where
  "py_slice xs i j =
     (let lo = py_index (length xs) i; hi = py_index (length xs) j
      in take (hi - lo) (drop lo xs))"

definition py_slice_from :: "'a list \<Rightarrow> int \<Rightarrow> 'a list" where
  "py_slice_from xs i = drop (py_index (length xs) i) xs"

text \<open>\<open>re.finditer(r'[.!?]\s+', s)\<close>: the spans (start, end) of the non-overlapping
  matches from left to right; a match is one of the three punctuation marks and the
  whole run of whitespace after it.\<close>

function sentence_matches_from :: "nat \<Rightarrow> string \<Rightarrow> (nat \<times> nat) list" where
  "sentence_matches_from pos [] = []"
| "sentence_matches_from pos (c # cs) =
     (if c \<in> set ''.!?'' \<and> cs \<noteq> [] \<and> py_isspace (hd cs)
      then (pos, pos + 1 + length (takeWhile py_isspace cs))
             # sentence_matches_from (pos + 1 + length (takeWhile py_isspace cs))
                 (dropWhile py_isspace cs)
      else sentence_matches_from (pos + 1) cs)"
  by pat_completeness auto
termination
  by (relation "measure (\<lambda>(pos, s). length s)")
     (auto simp: less_Suc_eq_le length_dropWhile_le)

definition sentence_matches :: "string \<Rightarrow> (nat \<times> nat) list" where
  "sentence_matches s = sentence_matches_from 0 s"

definition max_chunks :: nat where "max_chunks = 1000"

text \<open>The end of the window that starts at \<open>start\<close>, snapped back to the last sentence
  boundary found in its last 50 characters.\<close>

definition window_end :: "string \<Rightarrow> int \<Rightarrow> int \<Rightarrow> int" where
  "window_end text chunk_size start =
     (let end = min (start + chunk_size) (int (length text))
      in if end < int (length text)
         then (let search_start = max start (end - 50);
                   text_segment = py_slice text search_start end;
                   matches = sentence_matches text_segment
               in if matches \<noteq> [] then search_start + int (snd (last matches)) else end)
         else end)"

text \<open>The next start: \<open>end - overlap\<close>, or a forced step when that makes no progress.\<close>

definition advance :: "int \<Rightarrow> int \<Rightarrow> int \<Rightarrow> int \<Rightarrow> int" where
  "advance chunk_size overlap start end =
     (let new_start = end - overlap
      in if new_start \<le> start then start + max 1 (chunk_size div 2) else new_start)"

text \<open>The \<open>while\<close> loop; it returns the chunks and the final \<open>chunk_count\<close>, which counts
  the iterations executed.\<close>

function chunk_loop ::
  "string \<Rightarrow> int \<Rightarrow> int \<Rightarrow> int \<Rightarrow> string list \<Rightarrow> nat \<Rightarrow> string list \<times> nat" where
  "chunk_loop text chunk_size overlap start chunks chunk_count =
     (if start < int (length text) \<and> chunk_count < max_chunks
      then (let end = window_end text chunk_size start;
                chunk = py_strip (py_slice text start end);
                chunks1 = (if chunk \<noteq> [] then chunks @ [chunk] else chunks);
                new_start = advance chunk_size overlap start end;
                chunk_count1 = chunk_count + 1
            in if int (length text) - new_start < chunk_size div 2
               then (let remaining = py_strip (py_slice_from text new_start)
                     in (if remaining \<noteq> [] \<and> remaining \<notin> set chunks1
                         then chunks1 @ [remaining] else chunks1, chunk_count1))
               else chunk_loop text chunk_size overlap new_start chunks1 chunk_count1)
      else (chunks, chunk_count))"
  by pat_completeness auto
termination
  by (relation "measure (\<lambda>(text, chunk_size, overlap, start, chunks, chunk_count).
        max_chunks - chunk_count)") auto

definition chunk_text_run :: "string \<Rightarrow> int option \<Rightarrow> int option \<Rightarrow> string list \<times> nat" where
  "chunk_text_run text chunk_size overlap =
     (let chunk_size = py_or chunk_size CHUNK_SIZE;
          overlap = py_or overlap CHUNK_OVERLAP
      in if py_strip text = [] then ([], 0)
         else (let text = py_strip text
               in if int (length text) \<le> chunk_size then ([text], 0)
                  else chunk_loop text chunk_size overlap 0 [] 0))"

definition chunk_text :: "string \<Rightarrow> int option \<Rightarrow> int option \<Rightarrow> string list" where
  "chunk_text text chunk_size overlap = fst (chunk_text_run text chunk_size overlap)"

text \<open>Position \<open>i\<close> of the text lies in the window \<open>[a, b)\<close> of one of the chunks, and its
  character is in that chunk.\<close>

definition covers :: "string \<Rightarrow> string list \<Rightarrow> nat \<Rightarrow> bool" where
  "covers t chunks i \<longleftrightarrow>
     (\<exists>c\<in>set chunks. \<exists>a b. a \<le> i \<and> i < b \<and> c = py_strip (take (b - a) (drop a t))
        \<and> t ! i \<in> set c)"

section \<open>Answer synthesizer (\<open>RAGSystem._generate_answer\<close>)\<close>

text \<open>\<open>s.split(sep)\<close> for a non-empty separator: the pieces between the non-overlapping
  occurrences of \<open>sep\<close>, found from the left. (Python raises on an empty separator; the
  code only splits on fixed non-empty strings.)\<close>

function py_split :: "string \<Rightarrow> string \<Rightarrow> string list" where
  "py_split sep [] = [[]]"
| "py_split sep (c # cs) =
     (if sep \<noteq> [] \<and> prefix sep (c # cs)
      then [] # py_split sep (drop (length sep) (c # cs))
      else (case py_split sep cs of
              [] \<Rightarrow> [[c]]
            | p # ps \<Rightarrow> (c # p) # ps))"
  by pat_completeness auto
termination
  by (relation "measure (\<lambda>(sep, s). length s)") (auto simp: neq_Nil_conv)

text \<open>\<open>s.find(sep)\<close>: the index of the first occurrence, \<open>None\<close> for Python's -1. The code
  does not call it; the properties below use it to say where a marker stands.\<close>

fun py_find :: "string \<Rightarrow> string \<Rightarrow> nat option" where
  "py_find sep [] = (if sep = [] then Some 0 else None)"
| "py_find sep (c # cs) =
     (if prefix sep (c # cs) then Some 0 else map_option Suc (py_find sep cs))"

text \<open>\<open>sep.join(xs)\<close>\<close>

fun py_join :: "string \<Rightarrow> string list \<Rightarrow> string" where
  "py_join sep [] = []"
| "py_join sep [x] = x"
| "py_join sep (x # y # ys) = x @ sep @ py_join sep (y # ys)"

text \<open>The loop that drops the lines starting with \<open>[Source\<close> and joins the others, each
  followed by a space. The test \<open>sub in s\<close> is \<open>sublist sub s\<close>, \<open>s.startswith(p)\<close> is
  \<open>prefix p s\<close> and \<open>s.endswith(p)\<close> is \<open>suffix p s\<close>.\<close>

definition clean_context :: "string \<Rightarrow> string" where
  "clean_context context =
     concat (map (\<lambda>line. line @ '' '')
       (filter (\<lambda>line. \<not> prefix ''[Source'' (py_strip line)) (py_split [CHR 0x0A] context)))"

text \<open>The four rules in the order of the code; a rule that returns gives \<open>Some\<close>, one that
  falls through gives \<open>None\<close>. A split never returns the empty list, so \<open>hd\<close> reads its
  element 0.\<close>

definition temperature_rule :: "string \<Rightarrow> string \<Rightarrow> string option" where
  "temperature_rule query_lower clean =
     (if sublist ''temperature'' query_lower \<and> sublist ''range'' query_lower
      then (if sublist ''Normal Operating Range:'' clean
            then (let parts = py_split ''Normal Operating Range:'' clean
                  in if length parts > 1
                     then (let temp_info = py_strip (hd (py_split ''High Alarm Setpoint:'' (parts ! 1)))
                           in Some (''The normal operating temperature range is '' @ temp_info @ ''.''))
                     else None)
            else None)
      else None)"

definition procedure_words :: "string list" where
  "procedure_words = [''1.'', ''2.'', ''3.'', ''check'', ''verify'', ''reduce'']"

definition procedure_rule :: "string \<Rightarrow> string \<Rightarrow> string option" where
  "procedure_rule query_lower clean =
     (if sublist ''alarm'' query_lower \<or> sublist ''procedure'' query_lower
      then (let sentences = py_split ''.'' clean;
                procedures = filter (\<lambda>sentence.
                    list_ex (\<lambda>word. sublist word (py_lower sentence)) procedure_words
                    \<and> length sentence > 10 \<and> length sentence < 200)
                  (map py_strip sentences)
            in if procedures \<noteq> [] then Some (py_join ''. '' (take 3 procedures) @ ''.'')
               else None)
      else None)"

definition calibration_rule :: "string \<Rightarrow> string \<Rightarrow> string option" where
  "calibration_rule query_lower clean =
     (if sublist ''calibration'' query_lower \<or> sublist ''calibrate'' query_lower
      then (if sublist ''calibration procedure:'' (py_lower clean)
            then (let parts = py_split ''calibration procedure:'' (py_lower clean)
                  in if length parts > 1
                     then (let cal_info = py_strip (hd (py_split ''preventive maintenance:'' (parts ! 1)))
                           in Some (''Calibration procedure: '' @ cal_info @ ''.''))
                     else None)
            else None)
      else None)"

definition default_rule :: "string \<Rightarrow> string" where
  "default_rule clean =
     (let sentences = filter (\<lambda>s. length s > 20) (map py_strip (py_split ''.'' clean))
      in if sentences \<noteq> []
         then (let answer = py_join ''. '' (take 2 sentences)
               in if \<not> suffix ''.'' answer then answer @ ''.'' else answer)
         else (if length clean > 300 then take 300 clean @ ''...'' else clean))"

definition generate_answer :: "string \<Rightarrow> string \<Rightarrow> string" where
  "generate_answer query context =
     (if context = [] \<or> py_strip context = []
      then ''No relevant information found in the documents.''
      else (let clean = clean_context context;
                query_lower = py_lower query
            in case temperature_rule query_lower clean of
                 Some answer \<Rightarrow> answer
               | None \<Rightarrow>
                   (case procedure_rule query_lower clean of
                      Some answer \<Rightarrow> answer
                    | None \<Rightarrow>
                        (case calibration_rule query_lower clean of
                           Some answer \<Rightarrow> answer
                         | None \<Rightarrow> default_rule clean))))"

section \<open>Question answering pipeline (\<open>RAGSystem\<close>)\<close>













section \<open>Alarm analyzer (\<open>AlarmAnalyzer\<close>)\<close>

















section \<open>Sample inputs\<close>

text \<open>The dict \<open>{'score': s}\<close> (or \<open>{}\<close> for \<open>None\<close>), as the repository's tests build it.\<close>

definition score_dict :: "real option \<Rightarrow> result_dict" where
  "score_dict s =
     \<lparr> r_text = None, r_title = None, r_page = None, r_score = s, r_chunk_id = None \<rparr>"

text \<open>A text of five sentences, and a text whose first window snaps back to its first
  sentence.\<close>

definition sample_manual :: string where
  "sample_manual = ''  The pump runs at high pressure. Check the valve before start! Is the sensor calibrated? Verify the setpoint and reduce the flow slowly. Then restart the system.  ''"

definition sample_skip :: string where
  "sample_skip = ''a. XYbbbbbbbbbbbbbbbbbbbb''"

text \<open>Contexts with the two markers of the temperature rule.\<close>

definition sample_context :: string where
  "sample_context = ''Temperature Control. Normal Operating Range: 80-95 C High Alarm Setpoint: 100 C''"

definition sample_context_twice :: string where
  "sample_context_twice =
     ''Normal Operating Range: see Normal Operating Range: 80-95 C High Alarm Setpoint: 100 C''"






section \<open>Properties of the confidence gate\<close>

lemma has_industrial_context_iff:
  "has_industrial_context query
     \<longleftrightarrow> set (py_split_ws (py_lower query)) \<inter> set industrial_keywords \<noteq> {}"
  by (auto simp: has_industrial_context_def list_ex_iff)

lemma gate_Dict_Cons:
  "check_retrieval_confidence thr (Dict d # rest) query =
     (if has_industrial_context query
      then (if get_score d < 0 then 1 / 2 \<le> 1 / (1 + \<bar>get_score d\<bar>) else thr \<le> get_score d)
      else (if get_score d < 0 then 4 / 5 \<le> 1 / (1 + \<bar>get_score d\<bar>) else 4 / 5 \<le> get_score d))"
  by (simp add: check_retrieval_confidence_def Let_def)

text \<open>
  C1 (as the code has it). For a result list whose top result has a negative raw score
  \<open>s\<close> and a query none of whose lowercase whitespace tokens is a domain keyword, the
  threshold is raised to 0.8 and the gate answers whether \<open>1 / (1 + |s|) \<ge> 0.8\<close>.
  For \<open>s = -0.1\<close> the similarity is about 0.909, so the gate returns true.
\<close>

theorem C1_off_domain_gate:
  assumes "set (py_split_ws (py_lower query)) \<inter> set industrial_keywords = {}"
    and "r_score d = Some s" and "s < 0"
  shows "check_retrieval_confidence thr (Dict d # rest) query = (0.8 \<le> 1 / (1 + \<bar>s\<bar>))
         \<and> (s = - 0.1 \<longrightarrow> check_retrieval_confidence thr (Dict d # rest) query)"
proof -
  from assms(1) have off: "\<not> has_industrial_context query"
    by (simp add: has_industrial_context_iff)
  from assms(2) have sc: "get_score d = s"
    by (simp add: get_score_def)
  have eq: "check_retrieval_confidence thr (Dict d # rest) query = (0.8 \<le> 1 / (1 + \<bar>s\<bar>))"
    using off sc assms(3) by (simp add: gate_Dict_Cons)
  moreover have "s = - 0.1 \<longrightarrow> (0.8::real) \<le> 1 / (1 + \<bar>s\<bar>)"
    by simp
  ultimately show ?thesis by blast
qed

theorem C1_off_domain_gate_witness:
  "set (py_split_ws (py_lower ''unicorns'')) \<inter> set industrial_keywords = {}
   \<and> r_score (score_dict (Some (- 0.1))) = Some (- 0.1)
   \<and> check_retrieval_confidence SCORE_THRESHOLD_default
        [Dict (score_dict (Some (- 0.1)))] ''unicorns''"
proof -
  have h1: "set (py_split_ws (py_lower ''unicorns'')) \<inter> set industrial_keywords = {}"
    by code_simp
  have h2: "r_score (score_dict (Some (- 0.1))) = Some (- 0.1)"
    by (simp add: score_dict_def)
  have h3: "(- 0.1 :: real) < 0" by simp
  from C1_off_domain_gate [OF h1 h2 h3, of SCORE_THRESHOLD_default "[]"] h1 h2
  show ?thesis by simp
qed

theorem C1_unicorns_counterexample:
  "check_retrieval_confidence SCORE_THRESHOLD_default
     [Dict (score_dict (Some (- 0.1)))] ''unicorns'' = True"
  by code_simp

text \<open>
  C2. For every non-empty list of result dicts and every query with a domain keyword
  among its lowercase whitespace tokens, the gate compares \<open>1 / (1 + |top|)\<close> with the
  base threshold 0.5 when the top score is negative, and the top score itself with
  the configured threshold (default -2.0) otherwise. A top score of -0.1 with a query
  that has the token "temperature" is judged confident.
\<close>

theorem C2_domain_gate:
  assumes "ds \<noteq> []"
    and "k \<in> set industrial_keywords"
    and "k \<in> set (py_split_ws (py_lower query))"
  shows "check_retrieval_confidence thr (map Dict ds) query =
           (if get_score (hd ds) < 0 then 0.5 \<le> 1 / (1 + \<bar>get_score (hd ds)\<bar>)
            else thr \<le> get_score (hd ds))
         \<and> SCORE_THRESHOLD_default = - 2
         \<and> (r_score (hd ds) = Some (- 0.1) \<and> k = ''temperature''
              \<longrightarrow> check_retrieval_confidence thr (map Dict ds) query)"
proof -
  from assms(1) obtain d rest where ds: "ds = d # rest"
    by (cases ds) auto
  from assms(2,3) have dom: "has_industrial_context query"
    by (auto simp: has_industrial_context_iff)
  have eq: "check_retrieval_confidence thr (map Dict ds) query =
           (if get_score (hd ds) < 0 then 0.5 \<le> 1 / (1 + \<bar>get_score (hd ds)\<bar>)
            else thr \<le> get_score (hd ds))"
    using dom by (simp add: ds gate_Dict_Cons)
  moreover have "r_score (hd ds) = Some (- 0.1)
      \<longrightarrow> check_retrieval_confidence thr (map Dict ds) query"
    unfolding eq by (simp add: get_score_def)
  moreover have "SCORE_THRESHOLD_default = - 2"
    by (simp add: SCORE_THRESHOLD_default_def)
  ultimately show ?thesis by blast
qed

theorem C2_domain_gate_witness:
  "[score_dict (Some (- 0.1))] \<noteq> []
   \<and> ''temperature'' \<in> set industrial_keywords
   \<and> ''temperature'' \<in> set (py_split_ws (py_lower ''What is the operating temperature range?''))
   \<and> check_retrieval_confidence SCORE_THRESHOLD_default
        (map Dict [score_dict (Some (- 0.1))]) ''What is the operating temperature range?''"
proof -
  have h1: "[score_dict (Some (- 0.1))] \<noteq> []" by simp
  have h2: "''temperature'' \<in> set industrial_keywords"
    by (simp add: industrial_keywords_def)
  have h3: "''temperature''
      \<in> set (py_split_ws (py_lower ''What is the operating temperature range?''))"
    by code_simp
  have h4: "r_score (hd [score_dict (Some (- 0.1))]) = Some (- 0.1)"
    by (simp add: score_dict_def)
  from C2_domain_gate [OF h1 h2 h3, of SCORE_THRESHOLD_default] h2 h3 h4
  show ?thesis by blast
qed

text \<open>
  C10. Under the default configured threshold -2.0, for every query with a domain
  keyword among its tokens, a non-empty list of result dicts whose top score is
  non-negative is judged confident; a top result without a 'score' key reads as 0.0
  and is judged confident too.
\<close>

theorem C10_default_threshold_passes:
  assumes "ds \<noteq> []"
    and "k \<in> set industrial_keywords"
    and "k \<in> set (py_split_ws (py_lower query))"
  shows "(0 \<le> get_score (hd ds)
            \<longrightarrow> check_retrieval_confidence SCORE_THRESHOLD_default (map Dict ds) query)
         \<and> (r_score (hd ds) = None
            \<longrightarrow> get_score (hd ds) = 0
              \<and> check_retrieval_confidence SCORE_THRESHOLD_default (map Dict ds) query)"
proof -
  from assms(1) obtain d rest where ds: "ds = d # rest"
    by (cases ds) auto
  from assms(2,3) have dom: "has_industrial_context query"
    by (auto simp: has_industrial_context_iff)
  have pass: "check_retrieval_confidence SCORE_THRESHOLD_default (map Dict ds) query"
    if "0 \<le> get_score (hd ds)"
    using that dom by (simp add: ds gate_Dict_Cons SCORE_THRESHOLD_default_def)
  moreover have "get_score (hd ds) = 0" if "r_score (hd ds) = None"
    using that by (simp add: get_score_def)
  ultimately show ?thesis by simp
qed

theorem C10_default_threshold_passes_witness:
  "[score_dict None] \<noteq> []
   \<and> ''pressure'' \<in> set industrial_keywords
   \<and> ''pressure'' \<in> set (py_split_ws (py_lower ''How do you calibrate the pressure sensor?''))
   \<and> r_score (hd [score_dict None]) = None
   \<and> check_retrieval_confidence SCORE_THRESHOLD_default
        (map Dict [score_dict None]) ''How do you calibrate the pressure sensor?''"
proof -
  have h1: "[score_dict None] \<noteq> []" by simp
  have h2: "''pressure'' \<in> set industrial_keywords"
    by (simp add: industrial_keywords_def)
  have h3: "''pressure''
      \<in> set (py_split_ws (py_lower ''How do you calibrate the pressure sensor?''))"
    by code_simp
  have h4: "r_score (hd [score_dict None]) = None"
    by (simp add: score_dict_def)
  from C10_default_threshold_passes [OF h1 h2 h3] h2 h3 h4
  show ?thesis by simp
qed

section \<open>Properties of the citation formatter\<close>

lemma py_round_cases: "py_round x = \<lfloor>x\<rfloor> \<or> py_round x = \<lfloor>x\<rfloor> + 1"
  by (simp add: py_round_def Let_def)

lemma py_round_nonneg: "0 \<le> x \<Longrightarrow> 0 \<le> py_round x"
  using py_round_cases [of x] by (auto simp: zero_le_floor)

lemma py_round_le:
  assumes "x \<le> of_int n"
  shows "py_round x \<le> n"
proof (cases "x = of_int n")
  case True
  then show ?thesis by (simp add: py_round_def)
next
  case False
  with assms have "x < of_int n" by simp
  then have "\<lfloor>x\<rfloor> < n" by (simp add: floor_less_iff)
  with py_round_cases [of x] show ?thesis by auto
qed

lemma round3_unit_interval:
  assumes "0 \<le> x" and "x \<le> 1"
  shows "0 \<le> round3 x \<and> round3 x \<le> 1"
proof -
  from assms(1) have "0 \<le> py_round (x * 1000)"
    by (intro py_round_nonneg) simp
  moreover from assms(2) have "py_round (x * 1000) \<le> 1000"
    by (intro py_round_le) simp
  ultimately show ?thesis
    by (simp add: round3_def)
qed

lemma similarity_score_unit_interval:
  assumes "s \<le> 1"
  shows "0 \<le> similarity_score s \<and> similarity_score s \<le> 1"
  using assms by (auto simp: similarity_score_def divide_le_eq)

lemma format_citations_elem:
  "c \<in> set (format_citations results)
     \<Longrightarrow> \<exists>d. Dict d \<in> set results \<and> \<not> dict_is_empty d \<and> c = format_citation d"
  by (induction results rule: format_citations.induct) (auto split: if_splits)

text \<open>
  C3 (as the code has it). Each citation comes from a non-empty result dict of the
  input; its score is \<open>1 / (1 + |s|)\<close> rounded to 3 decimals for a negative raw score
  \<open>s\<close> (-2.0 gives 0.333) and \<open>s\<close> rounded to 3 decimals otherwise. The score lies in
  [0,1] whenever the raw score is at most 1.
\<close>

theorem C3_citation_scores:
  assumes "c \<in> set (format_citations results)"
  shows "\<exists>d. Dict d \<in> set results \<and> \<not> dict_is_empty d \<and> c = format_citation d
           \<and> c_score c = (if get_score d < 0 then round3 (1 / (1 + \<bar>get_score d\<bar>))
                          else round3 (get_score d))
           \<and> (get_score d = - 2 \<longrightarrow> c_score c = 0.333)
           \<and> (get_score d \<le> 1 \<longrightarrow> 0 \<le> c_score c \<and> c_score c \<le> 1)"
proof -
  from format_citations_elem [OF assms] obtain d
    where d: "Dict d \<in> set results" "\<not> dict_is_empty d" "c = format_citation d"
    by blast
  have sc: "c_score c = round3 (similarity_score (get_score d))"
    by (simp add: d(3) format_citation_def)
  then have form: "c_score c = (if get_score d < 0 then round3 (1 / (1 + \<bar>get_score d\<bar>))
                          else round3 (get_score d))"
    by (simp add: similarity_score_def)
  have ex: "c_score c = 0.333" if "get_score d = - 2"
    unfolding form that by (simp add: round3_def py_round_def Let_def)
  have rng: "0 \<le> c_score c \<and> c_score c \<le> 1" if "get_score d \<le> 1"
    unfolding sc using similarity_score_unit_interval [OF that]
    by (intro round3_unit_interval) simp_all
  from d form ex rng show ?thesis by blast
qed

theorem C3_citation_scores_witness:
  "format_citation (score_dict (Some (- 2))) \<in> set (format_citations [Dict (score_dict (Some (- 2)))])
   \<and> c_score (format_citation (score_dict (Some (- 2)))) = 0.333
   \<and> 0 \<le> c_score (format_citation (score_dict (Some (- 2))))
   \<and> c_score (format_citation (score_dict (Some (- 2)))) \<le> 1"
proof -
  have h: "format_citation (score_dict (Some (- 2)))
      \<in> set (format_citations [Dict (score_dict (Some (- 2)))])"
    by (simp add: dict_is_empty_def score_dict_def)
  from C3_citation_scores [OF h] obtain d
    where d: "Dict d \<in> set [Dict (score_dict (Some (- 2)))]"
      and ex: "get_score d = - 2 \<longrightarrow> c_score (format_citation (score_dict (Some (- 2)))) = 0.333"
      and rng: "get_score d \<le> 1 \<longrightarrow> 0 \<le> c_score (format_citation (score_dict (Some (- 2))))
                  \<and> c_score (format_citation (score_dict (Some (- 2)))) \<le> 1"
    by blast
  from d have "get_score d = - 2"
    by (simp add: get_score_def score_dict_def)
  with ex rng h show ?thesis by simp
qed

theorem C3_score_above_one_counterexample:
  "c_score (hd (format_citations [Dict (score_dict (Some 2))])) = 2
   \<and> \<not> c_score (hd (format_citations [Dict (score_dict (Some 2))])) \<le> 1"
  by (simp add: score_dict_def dict_is_empty_def format_citation_def similarity_score_def
      get_score_def round3_def py_round_def Let_def)

section \<open>Properties of the text chunker\<close>

declare chunk_loop.simps [simp del]

lemma py_strip_nonspace:
  assumes "py_strip s \<noteq> []"
  shows "\<exists>c\<in>set (py_strip s). \<not> py_isspace c"
proof -
  let ?u = "dropWhile py_isspace (rev (dropWhile py_isspace s))"
  from assms have ne: "?u \<noteq> []" by (simp add: py_strip_def)
  then have "\<not> py_isspace (hd ?u)" by (rule hd_dropWhile)
  moreover from ne have "hd ?u \<in> set (py_strip s)" by (simp add: py_strip_def)
  ultimately show ?thesis by blast
qed

lemma length_py_strip: "length (py_strip s) \<le> length s"
proof -
  have "length (py_strip s) \<le> length (rev (dropWhile py_isspace s))"
    unfolding py_strip_def length_rev [of "dropWhile py_isspace (rev (dropWhile py_isspace s))"]
    by (rule length_dropWhile_le)
  also have "\<dots> \<le> length s" by (simp add: length_dropWhile_le)
  finally show ?thesis .
qed

lemma advance_progress: "start < advance chunk_size overlap start end"
  by (simp add: advance_def Let_def max_def)

lemma advance_forced:
  "end - overlap \<le> start
     \<Longrightarrow> advance chunk_size overlap start end = start + max 1 (chunk_size div 2)"
  by (simp add: advance_def Let_def)

lemma chunk_loop_stop:
  "\<not> (start < int (length t) \<and> chunk_count < max_chunks)
     \<Longrightarrow> chunk_loop t chunk_size overlap start chunks chunk_count = (chunks, chunk_count)"
  by (subst chunk_loop.simps) (simp only: if_False)

lemma chunk_loop_break:
  assumes "start < int (length t) \<and> chunk_count < max_chunks"
    and "e = window_end t chunk_size start"
    and "chunk = py_strip (py_slice t start e)"
    and "chunks1 = (if chunk \<noteq> [] then chunks @ [chunk] else chunks)"
    and "new_start = advance chunk_size overlap start e"
    and "int (length t) - new_start < chunk_size div 2"
    and "remaining = py_strip (py_slice_from t new_start)"
  shows "chunk_loop t chunk_size overlap start chunks chunk_count =
           (if remaining \<noteq> [] \<and> remaining \<notin> set chunks1
            then chunks1 @ [remaining] else chunks1, chunk_count + 1)"
  using assms by (subst chunk_loop.simps) (simp add: Let_def)

lemma chunk_loop_continue:
  assumes "start < int (length t) \<and> chunk_count < max_chunks"
    and "e = window_end t chunk_size start"
    and "chunk = py_strip (py_slice t start e)"
    and "chunks1 = (if chunk \<noteq> [] then chunks @ [chunk] else chunks)"
    and "new_start = advance chunk_size overlap start e"
    and "\<not> int (length t) - new_start < chunk_size div 2"
  shows "chunk_loop t chunk_size overlap start chunks chunk_count =
           chunk_loop t chunk_size overlap new_start chunks1 (chunk_count + 1)"
  using assms by (subst chunk_loop.simps) (simp add: Let_def)

lemma chunk_loop_count:
  "chunk_count \<le> max_chunks
     \<Longrightarrow> snd (chunk_loop t chunk_size overlap start chunks chunk_count) \<le> max_chunks"
proof (induction t chunk_size overlap start chunks chunk_count rule: chunk_loop.induct)
  case (1 t chunk_size overlap start chunks chunk_count)
  show ?case
  proof (cases "start < int (length t) \<and> chunk_count < max_chunks")
    case False
    with "1.prems" show ?thesis
      by (simp add: chunk_loop_stop)
  next
    case True
    define e where "e = window_end t chunk_size start"
    define chunk where "chunk = py_strip (py_slice t start e)"
    define chunks1 where "chunks1 = (if chunk \<noteq> [] then chunks @ [chunk] else chunks)"
    define new_start where "new_start = advance chunk_size overlap start e"
    from True have lt: "chunk_count + 1 \<le> max_chunks" by simp
    show ?thesis
    proof (cases "int (length t) - new_start < chunk_size div 2")
      case brk: True
      show ?thesis
        unfolding chunk_loop_break [OF True e_def chunk_def chunks1_def new_start_def brk refl]
        using lt by simp
    next
      case cont: False
      show ?thesis
        unfolding chunk_loop_continue [OF True e_def chunk_def chunks1_def new_start_def cont]
        using "1.IH" [OF True e_def chunk_def chunks1_def new_start_def refl cont lt] .
    qed
  qed
qed

lemma chunk_loop_all:
  assumes "0 \<le> start" and "\<forall>c\<in>set chunks. P c"
    and "\<And>s. 0 \<le> s \<Longrightarrow> s < int (length t)
        \<Longrightarrow> py_strip (py_slice t s (window_end t chunk_size s)) \<noteq> []
        \<Longrightarrow> P (py_strip (py_slice t s (window_end t chunk_size s)))"
    and "\<And>s. 0 < s \<Longrightarrow> int (length t) - s < chunk_size div 2
        \<Longrightarrow> py_strip (py_slice_from t s) \<noteq> []
        \<Longrightarrow> P (py_strip (py_slice_from t s))"
  shows "\<forall>c\<in>set (fst (chunk_loop t chunk_size overlap start chunks chunk_count)). P c"
  using assms
proof (induction t chunk_size overlap start chunks chunk_count rule: chunk_loop.induct)
  case (1 t chunk_size overlap start chunks chunk_count)
  note main = "1.prems"(3) and rest = "1.prems"(4)
  show ?case
  proof (cases "start < int (length t) \<and> chunk_count < max_chunks")
    case False
    with "1.prems"(2) show ?thesis
      by (simp add: chunk_loop_stop)
  next
    case True
    define e where "e = window_end t chunk_size start"
    define chunk where "chunk = py_strip (py_slice t start e)"
    define chunks1 where "chunks1 = (if chunk \<noteq> [] then chunks @ [chunk] else chunks)"
    define new_start where "new_start = advance chunk_size overlap start e"
    have pos: "0 < new_start"
      using advance_progress [of start chunk_size overlap e] "1.prems"(1)
      by (simp add: new_start_def)
    have "P chunk" if "chunk \<noteq> []"
      using that main [of start] "1.prems"(1) True by (simp add: chunk_def e_def)
    with "1.prems"(2) have P1: "\<forall>c\<in>set chunks1. P c"
      by (simp add: chunks1_def)
    show ?thesis
    proof (cases "int (length t) - new_start < chunk_size div 2")
      case brk: True
      show ?thesis
        unfolding chunk_loop_break [OF True e_def chunk_def chunks1_def new_start_def brk refl]
        using P1 rest [OF pos brk] by auto
    next
      case cont: False
      from pos have pos': "0 \<le> new_start" by simp
      show ?thesis
        unfolding chunk_loop_continue [OF True e_def chunk_def chunks1_def new_start_def cont]
        using "1.IH" [OF True e_def chunk_def chunks1_def new_start_def refl cont pos' P1 main rest]
        by simp
    qed
  qed
qed


lemma sentence_matches_from_span:
  "(a, b) \<in> set (sentence_matches_from pos s) \<Longrightarrow> pos \<le> a \<and> a < b \<and> b \<le> pos + length s"
proof (induction pos s arbitrary: a b rule: sentence_matches_from.induct)
  case (1 pos)
  then show ?case by simp
next
  case (2 pos c cs)
  have len: "length (takeWhile py_isspace cs) + length (dropWhile py_isspace cs) = length cs"
    by (metis length_append takeWhile_dropWhile_id)
  show ?case
  proof (cases "c \<in> set ''.!?'' \<and> cs \<noteq> [] \<and> py_isspace (hd cs)")
    case True
    with "2.prems" consider
        "(a, b) = (pos, pos + 1 + length (takeWhile py_isspace cs))"
      | "(a, b) \<in> set (sentence_matches_from (pos + 1 + length (takeWhile py_isspace cs))
                         (dropWhile py_isspace cs))"
      by auto
    then show ?thesis
    proof cases
      case 1
      with len show ?thesis by auto
    next
      case 2
      from "2.IH"(1) [OF True 2] len show ?thesis by auto
    qed
  next
    case False
    with "2.prems" have "(a, b) \<in> set (sentence_matches_from (pos + 1) cs)"
      by auto
    from "2.IH"(2) [OF False this] show ?thesis by auto
  qed
qed

lemma sentence_matches_last:
  assumes "sentence_matches s \<noteq> []"
  shows "0 < snd (last (sentence_matches s)) \<and> snd (last (sentence_matches s)) \<le> length s"
proof -
  from assms have "last (sentence_matches s) \<in> set (sentence_matches_from 0 s)"
    by (simp add: sentence_matches_def)
  then have "(fst (last (sentence_matches s)), snd (last (sentence_matches s)))
      \<in> set (sentence_matches_from 0 s)"
    by simp
  from sentence_matches_from_span [OF this] show ?thesis by auto
qed

lemma py_index_nonneg: "0 \<le> i \<Longrightarrow> py_index n i = min (nat i) n"
  by (simp add: py_index_def)

lemma length_py_slice_nonneg:
  assumes "0 \<le> i" and "0 \<le> j"
  shows "int (length (py_slice xs i j)) \<le> j - i \<or> py_slice xs i j = []"
  using assms by (auto simp: py_slice_def py_index_nonneg Let_def min_def)

lemma py_slice_window:
  assumes "0 \<le> i" and "i \<le> j" and "j \<le> int (length xs)"
  shows "py_slice xs i j = take (nat j - nat i) (drop (nat i) xs)"
  using assms by (simp add: py_slice_def py_index_nonneg Let_def min_def)

lemma py_slice_from_nonneg:
  assumes "0 \<le> i"
  shows "py_slice_from xs i = drop (nat i) xs"
  using assms by (simp add: py_slice_from_def py_index_nonneg min_def)

lemma window_end_bounds:
  assumes "0 \<le> start" and "start < int (length t)" and "0 < chunk_size"
  shows "start < window_end t chunk_size start
         \<and> window_end t chunk_size start \<le> start + chunk_size
         \<and> window_end t chunk_size start \<le> int (length t)"
proof -
  define e0 where "e0 = min (start + chunk_size) (int (length t))"
  define ss where "ss = max start (e0 - 50)"
  define seg where "seg = py_slice t ss e0"
  have e0: "start < e0" "e0 \<le> start + chunk_size" "e0 \<le> int (length t)"
    using assms by (auto simp: e0_def)
  have ss: "start \<le> ss" "ss \<le> e0"
    using e0 by (auto simp: ss_def)
  have seg_len: "int (length seg) = e0 - ss"
    using ss e0 assms(1) unfolding seg_def
    by (subst py_slice_window) auto
  have we: "window_end t chunk_size start =
      (if e0 < int (length t) \<and> sentence_matches seg \<noteq> []
       then ss + int (snd (last (sentence_matches seg))) else e0)"
    by (simp add: window_end_def Let_def e0_def ss_def seg_def)
  show ?thesis
  proof (cases "e0 < int (length t) \<and> sentence_matches seg \<noteq> []")
    case True
    then have "0 < snd (last (sentence_matches seg))"
      and "snd (last (sentence_matches seg)) \<le> length seg"
      using sentence_matches_last [of seg] by auto
    with seg_len ss e0 True show ?thesis
      unfolding we by auto
  next
    case False
    with e0 show ?thesis unfolding we by auto
  qed
qed

lemma main_chunk_length:
  assumes "0 \<le> start" and "start < int (length t)" and "0 < chunk_size"
  shows "int (length (py_strip (py_slice t start (window_end t chunk_size start)))) \<le> chunk_size"
proof -
  let ?e = "window_end t chunk_size start"
  from window_end_bounds [OF assms] have b: "start < ?e" "?e \<le> start + chunk_size"
    by auto
  have "int (length (py_slice t start ?e)) \<le> ?e - start \<or> py_slice t start ?e = []"
    using assms(1) b by (intro length_py_slice_nonneg) auto
  with b assms(3) have "int (length (py_slice t start ?e)) \<le> chunk_size"
    by auto
  moreover have "length (py_strip (py_slice t start ?e)) \<le> length (py_slice t start ?e)"
    by (rule length_py_strip)
  ultimately show ?thesis by linarith
qed

lemma remaining_chunk_length:
  assumes "0 < s" and "int (length t) - s < chunk_size div 2" and "0 < chunk_size"
  shows "int (length (py_strip (py_slice_from t s))) \<le> chunk_size"
proof -
  have "int (length (py_slice_from t s)) \<le> max 0 (int (length t) - s)"
    using assms(1) by (simp add: py_slice_from_nonneg)
  also have "\<dots> \<le> chunk_size" using assms(2,3) by auto
  finally have "int (length (py_slice_from t s)) \<le> chunk_size" .
  moreover have "length (py_strip (py_slice_from t s)) \<le> length (py_slice_from t s)"
    by (rule length_py_strip)
  ultimately show ?thesis by linarith
qed

lemma dropWhile_keeps:
  "x \<in> set xs \<Longrightarrow> \<not> P x \<Longrightarrow> x \<in> set (dropWhile P xs)"
  by (induction xs) auto

lemma py_strip_keeps:
  assumes "x \<in> set s" and "\<not> py_isspace x"
  shows "x \<in> set (py_strip s)"
proof -
  from assms have "x \<in> set (rev (dropWhile py_isspace s))"
    by (simp add: dropWhile_keeps)
  then have "x \<in> set (dropWhile py_isspace (rev (dropWhile py_isspace s)))"
    using assms(2) by (rule dropWhile_keeps)
  then show ?thesis by (simp add: py_strip_def)
qed

lemma last_dropWhile:
  assumes "dropWhile P xs \<noteq> []"
  shows "last (dropWhile P xs) = last xs"
proof -
  have "xs = takeWhile P xs @ dropWhile P xs" by simp
  then have "last xs = last (takeWhile P xs @ dropWhile P xs)" by simp
  also have "\<dots> = last (dropWhile P xs)" using assms by (rule last_appendR)
  finally show ?thesis by simp
qed

lemma py_strip_idem: "py_strip (py_strip s) = py_strip s"
proof -
  define u where "u = dropWhile py_isspace s"
  define v where "v = dropWhile py_isspace (rev u)"
  have r: "py_strip s = rev v" by (simp add: py_strip_def u_def v_def)
  have v_idem: "dropWhile py_isspace v = v"
    unfolding v_def by (rule dropWhile_idem)
  have front: "dropWhile py_isspace (rev v) = rev v"
  proof (cases "v = []")
    case True
    then show ?thesis by simp
  next
    case False
    then have "last v = last (rev u)"
      unfolding v_def by (rule last_dropWhile)
    moreover from False have une: "u \<noteq> []" by (auto simp: v_def)
    ultimately have "last v = hd u" by (simp add: last_rev)
    moreover from une have "\<not> py_isspace (hd u)"
      unfolding u_def by (rule hd_dropWhile)
    ultimately have "\<not> py_isspace (hd (rev v))"
      using False by (simp add: hd_rev)
    moreover from False obtain x xs where "rev v = x # xs"
      by (cases "rev v") auto
    ultimately show ?thesis by simp
  qed
  have "py_strip (rev v) = rev (dropWhile py_isspace (rev (dropWhile py_isspace (rev v))))"
    by (simp add: py_strip_def)
  also have "\<dots> = rev (dropWhile py_isspace v)" by (simp add: front)
  also have "\<dots> = rev v" by (simp add: v_idem)
  finally show ?thesis by (simp add: r)
qed

lemma covers_mono: "covers t chunks i \<Longrightarrow> set chunks \<subseteq> set chunks' \<Longrightarrow> covers t chunks' i"
  by (auto simp: covers_def)

lemma window_covers:
  assumes "a \<le> i" and "i < b" and "i < length t" and "\<not> py_isspace (t ! i)"
    and "c = py_strip (take (b - a) (drop a t))"
  shows "t ! i \<in> set c"
proof -
  have "take (b - a) (drop a t) ! (i - a) = t ! i"
    using assms(1-3) by simp
  moreover have "i - a < length (take (b - a) (drop a t))"
    using assms(1-3) by auto
  ultimately have "t ! i \<in> set (take (b - a) (drop a t))"
    by (metis nth_mem)
  with assms(4,5) show ?thesis by (simp add: py_strip_keeps)
qed

lemma covers_window:
  assumes "a \<le> i" and "i < b" and "i < length t" and "\<not> py_isspace (t ! i)"
    and "py_strip (take (b - a) (drop a t)) \<in> set chunks"
  shows "covers t chunks i"
  using assms window_covers [OF assms(1-4) refl] unfolding covers_def by blast

lemma window_end_normal:
  assumes "0 \<le> start" and "start < int (length t)" and "0 < chunk_size"
    and "window_end t chunk_size start < int (length t)"
  shows "start + chunk_size - 50 < window_end t chunk_size start"
proof -
  define e0 where "e0 = min (start + chunk_size) (int (length t))"
  define ss where "ss = max start (e0 - 50)"
  define seg where "seg = py_slice t ss e0"
  have we: "window_end t chunk_size start =
      (if e0 < int (length t) \<and> sentence_matches seg \<noteq> []
       then ss + int (snd (last (sentence_matches seg))) else e0)"
    by (simp add: window_end_def Let_def e0_def ss_def seg_def)
  from assms(4) have "e0 < int (length t)"
    unfolding we by (auto split: if_splits)
  then have e0: "e0 = start + chunk_size" by (auto simp: e0_def)
  then have ss: "start + chunk_size - 50 \<le> ss" by (simp add: ss_def)
  show ?thesis
  proof (cases "e0 < int (length t) \<and> sentence_matches seg \<noteq> []")
    case True
    then have "0 < snd (last (sentence_matches seg))"
      using sentence_matches_last [of seg] by auto
    with ss True show ?thesis unfolding we by auto
  next
    case False
    with e0 show ?thesis unfolding we by auto
  qed
qed

lemma chunk_loop_covers:
  assumes "0 < overlap" and "overlap + 50 \<le> chunk_size" and "0 \<le> start"
    and "\<forall>i<length t. int i < start \<and> \<not> py_isspace (t ! i) \<longrightarrow> covers t chunks i"
    and "snd (chunk_loop t chunk_size overlap start chunks chunk_count) < max_chunks"
  shows "\<forall>i<length t. \<not> py_isspace (t ! i)
           \<longrightarrow> covers t (fst (chunk_loop t chunk_size overlap start chunks chunk_count)) i"
  using assms
proof (induction t chunk_size overlap start chunks chunk_count rule: chunk_loop.induct)
  case (1 t chunk_size overlap start chunks chunk_count)
  note ov = "1.prems"(1) and cs = "1.prems"(2) and st = "1.prems"(3)
    and inv = "1.prems"(4) and fin = "1.prems"(5)
  from ov cs have cspos: "0 < chunk_size" by simp
  show ?case
  proof (cases "start < int (length t) \<and> chunk_count < max_chunks")
    case False
    then have eq: "chunk_loop t chunk_size overlap start chunks chunk_count = (chunks, chunk_count)"
      by (rule chunk_loop_stop)
    with fin have "chunk_count < max_chunks" by simp
    with False have "int (length t) \<le> start" by simp
    with inv show ?thesis unfolding eq by auto
  next
    case True
    define e where "e = window_end t chunk_size start"
    define chunk where "chunk = py_strip (py_slice t start e)"
    define chunks1 where "chunks1 = (if chunk \<noteq> [] then chunks @ [chunk] else chunks)"
    define new_start where "new_start = advance chunk_size overlap start e"
    from True have lt: "start < int (length t)" by simp
    from window_end_bounds [OF st lt cspos]
    have eb: "start < e" "e \<le> int (length t)" by (simp_all add: e_def)
    have sub: "set chunks \<subseteq> set chunks1" by (auto simp: chunks1_def)
    have pos: "0 < new_start"
      using advance_progress [of start chunk_size overlap e] st by (simp add: new_start_def)
    have inv_e: "covers t chunks1 i"
      if i: "i < length t" "int i < e" "\<not> py_isspace (t ! i)" for i
    proof (cases "int i < start")
      case True
      with inv i have "covers t chunks i" by simp
      then show ?thesis using sub by (rule covers_mono)
    next
      case False
      have sl: "chunk = py_strip (take (nat e - nat start) (drop (nat start) t))"
        unfolding chunk_def using st eb by (subst py_slice_window) auto
      from False st have a: "nat start \<le> i" by simp
      from i(2) have b: "i < nat e" by simp
      from window_covers [OF a b i(1) i(3) sl] have "chunk \<noteq> []" by auto
      then have "py_strip (take (nat e - nat start) (drop (nat start) t)) \<in> set chunks1"
        using sl by (simp add: chunks1_def)
      with a b i(1) i(3) show ?thesis by (rule covers_window)
    qed
    have inv1: "\<forall>i<length t. int i < new_start \<and> \<not> py_isspace (t ! i) \<longrightarrow> covers t chunks1 i"
    proof (cases "e < int (length t)")
      case True
      from window_end_normal [OF st lt cspos] True
      have "start + chunk_size - 50 < e" by (simp add: e_def)
      with cs have "start < e - overlap" by simp
      then have "new_start = e - overlap" by (simp add: new_start_def advance_def)
      with ov have "new_start < e" by simp
      with inv_e show ?thesis by auto
    next
      case False
      with eb have "e = int (length t)" by simp
      with inv_e show ?thesis by auto
    qed
    show ?thesis
    proof (cases "int (length t) - new_start < chunk_size div 2")
      case brk: True
      define remaining where "remaining = py_strip (py_slice_from t new_start)"
      define res where "res = (if remaining \<noteq> [] \<and> remaining \<notin> set chunks1
            then chunks1 @ [remaining] else chunks1)"
      have eq: "chunk_loop t chunk_size overlap start chunks chunk_count = (res, chunk_count + 1)"
        unfolding res_def
        by (rule chunk_loop_break [OF True e_def chunk_def chunks1_def new_start_def brk remaining_def])
      have sub1: "set chunks1 \<subseteq> set res" by (auto simp: res_def)
      have "covers t res i" if i: "i < length t" "\<not> py_isspace (t ! i)" for i
      proof (cases "int i < new_start")
        case True
        with inv1 i have "covers t chunks1 i" by simp
        then show ?thesis using sub1 by (rule covers_mono)
      next
        case False
        have rem: "remaining = py_strip (take (length t - nat new_start) (drop (nat new_start) t))"
          unfolding remaining_def using pos by (simp add: py_slice_from_nonneg)
        from False pos have a: "nat new_start \<le> i" by simp
        from window_covers [OF a i(1) i(1) i(2) rem] have "remaining \<noteq> []" by auto
        then have "remaining \<in> set res" by (auto simp: res_def)
        then have "py_strip (take (length t - nat new_start) (drop (nat new_start) t)) \<in> set res"
          using rem by simp
        with a i(1) i(1) i(2) show ?thesis by (rule covers_window)
      qed
      then show ?thesis unfolding eq by simp
    next
      case cont: False
      have eq: "chunk_loop t chunk_size overlap start chunks chunk_count =
           chunk_loop t chunk_size overlap new_start chunks1 (chunk_count + 1)"
        by (rule chunk_loop_continue [OF True e_def chunk_def chunks1_def new_start_def cont])
      from pos have pos': "0 \<le> new_start" by simp
      from fin have fin': "snd (chunk_loop t chunk_size overlap new_start chunks1 (chunk_count + 1))
          < max_chunks"
        unfolding eq .
      show ?thesis
        unfolding eq
        by (rule "1.IH" [OF True e_def chunk_def chunks1_def new_start_def refl cont
              ov cs pos' inv1 fin'])
    qed
  qed
qed


lemma chunk_text_run_count: "snd (chunk_text_run s chunk_size overlap) \<le> max_chunks"
  using chunk_loop_count [of 0 "py_strip s" "py_or chunk_size CHUNK_SIZE"
      "py_or overlap CHUNK_OVERLAP" 0 "[]"]
  by (simp add: chunk_text_run_def Let_def)

text \<open>
  C4. For every input text, chunk size and overlap, \<open>chunk_text\<close> returns (the loop is
  a total function, its recursion bounded by the iteration counter) after at most 1000
  iterations of its main loop. Each iteration strictly increases the start position,
  and when the normal advance \<open>end - overlap\<close> makes no progress the start moves by
  \<open>max(1, chunk_size // 2)\<close>.
\<close>

theorem C4_chunk_text_iterations:
  "(\<exists>chunks n. chunk_text_run s chunk_size overlap = (chunks, n) \<and> n \<le> 1000)
   \<and> start < advance cs ov start e
   \<and> (e - ov \<le> start \<longrightarrow> advance cs ov start e = start + max 1 (cs div 2))"
proof -
  have "snd (chunk_text_run s chunk_size overlap) \<le> 1000"
    using chunk_text_run_count [of s chunk_size overlap] by (simp add: max_chunks_def)
  then have "\<exists>chunks n. chunk_text_run s chunk_size overlap = (chunks, n) \<and> n \<le> 1000"
    by (cases "chunk_text_run s chunk_size overlap") simp
  with advance_progress [of start cs ov e] advance_forced [of e ov start cs]
  show ?thesis by blast
qed

theorem C4_chunk_text_iterations_witness:
  "chunk_text_run sample_skip (Some 10) (Some 8) =
      ([''a.'', ''bbbbbbbbbb'', ''bbbbbbbbbb'', ''bbbbbbbbbb'', ''bbbbbbbbbb'',
        ''bbbbbbbbbb'', ''bbbbbbbbbb'', ''bbbbbbbb'', ''bbb''], 8)
   \<and> window_end sample_skip 10 0 = 3
   \<and> (3::int) - 8 \<le> 0
   \<and> advance 10 8 0 3 = 5"
proof -
  have run: "chunk_text_run sample_skip (Some 10) (Some 8) =
      ([''a.'', ''bbbbbbbbbb'', ''bbbbbbbbbb'', ''bbbbbbbbbb'', ''bbbbbbbbbb'',
        ''bbbbbbbbbb'', ''bbbbbbbbbb'', ''bbbbbbbb'', ''bbb''], 8)"
    by code_simp
  have we: "window_end sample_skip 10 0 = 3"
    by code_simp
  have h: "(3::int) - 8 \<le> 0" by simp
  from C4_chunk_text_iterations [of sample_skip "Some 10" "Some 8" 0 10 8 3] h
  have "advance 10 8 0 3 = 0 + max 1 (10 div 2)" by blast
  with run we h show ?thesis by simp
qed


lemma chunk_loop_chunks_ok:
  "\<forall>c\<in>set (fst (chunk_loop t chunk_size overlap 0 [] 0)).
     c \<noteq> [] \<and> (\<exists>ch\<in>set c. \<not> py_isspace ch)
     \<and> (0 < chunk_size \<longrightarrow> int (length c) \<le> chunk_size)"
proof (rule chunk_loop_all)
  show "(0::int) \<le> 0" by simp
  show "\<forall>c\<in>set []. c \<noteq> [] \<and> (\<exists>ch\<in>set c. \<not> py_isspace ch)
     \<and> (0 < chunk_size \<longrightarrow> int (length c) \<le> chunk_size)" by simp
next
  fix s
  assume "0 \<le> s" "s < int (length t)"
    and "py_strip (py_slice t s (window_end t chunk_size s)) \<noteq> []"
  then show "py_strip (py_slice t s (window_end t chunk_size s)) \<noteq> []
     \<and> (\<exists>ch\<in>set (py_strip (py_slice t s (window_end t chunk_size s))). \<not> py_isspace ch)
     \<and> (0 < chunk_size
          \<longrightarrow> int (length (py_strip (py_slice t s (window_end t chunk_size s)))) \<le> chunk_size)"
    using py_strip_nonspace main_chunk_length by simp
next
  fix s
  assume "0 < s" "int (length t) - s < chunk_size div 2"
    and "py_strip (py_slice_from t s) \<noteq> []"
  then show "py_strip (py_slice_from t s) \<noteq> []
     \<and> (\<exists>ch\<in>set (py_strip (py_slice_from t s)). \<not> py_isspace ch)
     \<and> (0 < chunk_size \<longrightarrow> int (length (py_strip (py_slice_from t s))) \<le> chunk_size)"
    using py_strip_nonspace remaining_chunk_length by simp
qed

lemma chunk_text_empty:
  "py_strip s = [] \<Longrightarrow> chunk_text s chunk_size overlap = []"
  by (simp add: chunk_text_def chunk_text_run_def Let_def)

lemma chunk_text_single:
  "py_strip s \<noteq> [] \<Longrightarrow> int (length (py_strip s)) \<le> py_or chunk_size CHUNK_SIZE
     \<Longrightarrow> chunk_text s chunk_size overlap = [py_strip s]"
  by (simp add: chunk_text_def chunk_text_run_def Let_def)

lemma chunk_text_loop:
  "py_strip s \<noteq> [] \<Longrightarrow> \<not> int (length (py_strip s)) \<le> py_or chunk_size CHUNK_SIZE
     \<Longrightarrow> chunk_text_run s chunk_size overlap =
         chunk_loop (py_strip s) (py_or chunk_size CHUNK_SIZE) (py_or overlap CHUNK_OVERLAP) 0 [] 0"
  by (simp add: chunk_text_run_def Let_def)

text \<open>
  C5. Every returned chunk is non-empty and not whitespace-only, and for a positive
  chunk size its length is at most the chunk size (boundary snapping only shortens a
  window). A text whose trimmed form is empty yields no chunk; a text whose trimmed
  length is at most the chunk size yields the trimmed text as the only chunk.
\<close>

theorem C5_chunks_nonempty_bounded:
  "(\<forall>c\<in>set (chunk_text s chunk_size overlap).
       c \<noteq> [] \<and> (\<exists>ch\<in>set c. \<not> py_isspace ch)
       \<and> (0 < py_or chunk_size CHUNK_SIZE \<longrightarrow> int (length c) \<le> py_or chunk_size CHUNK_SIZE))
   \<and> (py_strip s = [] \<longrightarrow> chunk_text s chunk_size overlap = [])
   \<and> (py_strip s \<noteq> [] \<and> int (length (py_strip s)) \<le> py_or chunk_size CHUNK_SIZE
        \<longrightarrow> chunk_text s chunk_size overlap = [py_strip s])"
proof -
  let ?P = "\<lambda>c. c \<noteq> [] \<and> (\<exists>ch\<in>set c. \<not> py_isspace ch)
       \<and> (0 < py_or chunk_size CHUNK_SIZE \<longrightarrow> int (length c) \<le> py_or chunk_size CHUNK_SIZE)"
  have "\<forall>c\<in>set (chunk_text s chunk_size overlap). ?P c"
  proof (cases "py_strip s = []")
    case True
    then show ?thesis by (simp add: chunk_text_empty)
  next
    case ne: False
    show ?thesis
    proof (cases "int (length (py_strip s)) \<le> py_or chunk_size CHUNK_SIZE")
      case True
      with ne py_strip_nonspace [OF ne] show ?thesis
        by (simp add: chunk_text_single)
    next
      case False
      with ne chunk_loop_chunks_ok show ?thesis
        by (simp add: chunk_text_def chunk_text_loop)
    qed
  qed
  then show ?thesis
    using chunk_text_empty chunk_text_single by blast
qed

theorem C5_chunks_nonempty_bounded_witness:
  "chunk_text sample_manual (Some 60) (Some 5) =
      [''The pump runs at high pressure.'', ''ure. Check the valve before start!'',
       ''art! Is the sensor calibrated?'',
       ''ted? Verify the setpoint and reduce the flow slowly.'',
       ''wly. Then restart the system.'']
   \<and> 0 < py_or (Some 60) CHUNK_SIZE
   \<and> int (length ''ted? Verify the setpoint and reduce the flow slowly.'') \<le> py_or (Some 60) CHUNK_SIZE
   \<and> py_strip ''   '' = [] \<and> chunk_text ''   '' None None = []
   \<and> py_strip '' hello world '' = ''hello world''
   \<and> int (length (py_strip '' hello world '')) \<le> py_or None CHUNK_SIZE
   \<and> chunk_text '' hello world '' None None = [''hello world'']"
proof -
  have run: "chunk_text sample_manual (Some 60) (Some 5) =
      [''The pump runs at high pressure.'', ''ure. Check the valve before start!'',
       ''art! Is the sensor calibrated?'',
       ''ted? Verify the setpoint and reduce the flow slowly.'',
       ''wly. Then restart the system.'']"
    by code_simp
  have cs: "0 < py_or (Some 60) CHUNK_SIZE" by (simp add: py_or_def)
  have mem: "''ted? Verify the setpoint and reduce the flow slowly.''
      \<in> set (chunk_text sample_manual (Some 60) (Some 5))"
    unfolding run by simp
  have e: "py_strip ''   '' = []" by code_simp
  have h: "py_strip '' hello world '' = ''hello world''" by code_simp
  have hl: "int (length (py_strip '' hello world '')) \<le> py_or None CHUNK_SIZE"
    unfolding h by (simp add: py_or_def CHUNK_SIZE_def)
  have hne: "py_strip '' hello world '' \<noteq> []" unfolding h by simp
  from C5_chunks_nonempty_bounded [of sample_manual "Some 60" "Some 5"] mem cs
  have "int (length ''ted? Verify the setpoint and reduce the flow slowly.'')
      \<le> py_or (Some 60) CHUNK_SIZE"
    by blast
  moreover from C5_chunks_nonempty_bounded [of "''   ''" None None] e
  have "chunk_text ''   '' None None = []" by blast
  moreover from C5_chunks_nonempty_bounded [of "'' hello world ''" None None] hne hl
  have "chunk_text '' hello world '' None None = [py_strip '' hello world '']" by blast
  ultimately show ?thesis using run cs e h hl by simp
qed

text \<open>
  C6 (as the code has it). When the overlap is positive, the chunk size is at least the
  overlap plus 50 (as with the defaults 600 and 100) and the loop ends before its
  1000-iteration limit, every non-whitespace character of the trimmed text lies in the
  window of a returned chunk and appears in that chunk.
\<close>

theorem C6_coverage_when_window_advances:
  assumes "0 < py_or overlap CHUNK_OVERLAP"
    and "py_or overlap CHUNK_OVERLAP + 50 \<le> py_or chunk_size CHUNK_SIZE"
    and "snd (chunk_text_run s chunk_size overlap) < 1000"
    and "i < length (py_strip s)" and "\<not> py_isspace (py_strip s ! i)"
  shows "\<exists>c\<in>set (chunk_text s chunk_size overlap). \<exists>a b. a \<le> i \<and> i < b
           \<and> c = py_strip (take (b - a) (drop a (py_strip s)))
           \<and> py_strip s ! i \<in> set c"
proof -
  from assms(4) have ne: "py_strip s \<noteq> []" by auto
  have "covers (py_strip s) (chunk_text s chunk_size overlap) i"
  proof (cases "int (length (py_strip s)) \<le> py_or chunk_size CHUNK_SIZE")
    case True
    with ne have eq: "chunk_text s chunk_size overlap = [py_strip s]"
      by (simp add: chunk_text_single)
    have "py_strip (take (length (py_strip s) - 0) (drop 0 (py_strip s)))
        \<in> set (chunk_text s chunk_size overlap)"
      unfolding eq by (simp add: py_strip_idem)
    with assms(4,5) show ?thesis
      by (intro covers_window [where a = 0 and b = "length (py_strip s)"]) auto
  next
    case False
    with ne have eq: "chunk_text_run s chunk_size overlap =
         chunk_loop (py_strip s) (py_or chunk_size CHUNK_SIZE) (py_or overlap CHUNK_OVERLAP) 0 [] 0"
      by (rule chunk_text_loop)
    from assms(3) have fin: "snd (chunk_loop (py_strip s) (py_or chunk_size CHUNK_SIZE)
        (py_or overlap CHUNK_OVERLAP) 0 [] 0) < max_chunks"
      unfolding eq by (simp add: max_chunks_def)
    have "\<forall>i<length (py_strip s). \<not> py_isspace (py_strip s ! i)
           \<longrightarrow> covers (py_strip s) (fst (chunk_loop (py_strip s) (py_or chunk_size CHUNK_SIZE)
                  (py_or overlap CHUNK_OVERLAP) 0 [] 0)) i"
      by (rule chunk_loop_covers [OF assms(1,2) _ _ fin]) simp_all
    with assms(4,5) show ?thesis
      by (simp add: chunk_text_def eq)
  qed
  then show ?thesis unfolding covers_def by blast
qed

theorem C6_coverage_when_window_advances_witness:
  "0 < py_or (Some 5) CHUNK_OVERLAP
   \<and> py_or (Some 5) CHUNK_OVERLAP + 50 \<le> py_or (Some 60) CHUNK_SIZE
   \<and> snd (chunk_text_run sample_manual (Some 60) (Some 5)) < 1000
   \<and> 100 < length (py_strip sample_manual)
   \<and> \<not> py_isspace (py_strip sample_manual ! 100)
   \<and> (\<exists>c\<in>set (chunk_text sample_manual (Some 60) (Some 5)).
         py_strip sample_manual ! 100 \<in> set c)"
proof -
  have h1: "0 < py_or (Some 5) CHUNK_OVERLAP" by (simp add: py_or_def)
  have h2: "py_or (Some 5) CHUNK_OVERLAP + 50 \<le> py_or (Some 60) CHUNK_SIZE"
    by (simp add: py_or_def)
  have h3: "snd (chunk_text_run sample_manual (Some 60) (Some 5)) < 1000"
    by code_simp
  have h4: "100 < length (py_strip sample_manual)" by code_simp
  have h5: "\<not> py_isspace (py_strip sample_manual ! 100)" by code_simp
  from C6_coverage_when_window_advances [OF h1 h2 h3 h4 h5]
  have "\<exists>c\<in>set (chunk_text sample_manual (Some 60) (Some 5)).
         py_strip sample_manual ! 100 \<in> set c"
    by blast
  with h1 h2 h3 h4 h5 show ?thesis by blast
qed

theorem C6_skipped_characters_counterexample:
  "py_strip sample_skip = sample_skip
   \<and> CHR ''X'' \<in> set sample_skip
   \<and> chunk_text sample_skip (Some 10) (Some 8) =
       [''a.'', ''bbbbbbbbbb'', ''bbbbbbbbbb'', ''bbbbbbbbbb'', ''bbbbbbbbbb'',
        ''bbbbbbbbbb'', ''bbbbbbbbbb'', ''bbbbbbbb'', ''bbb'']
   \<and> CHR ''X'' \<notin> set (concat (chunk_text sample_skip (Some 10) (Some 8)))"
  by code_simp

section \<open>Properties of the answer synthesizer\<close>

lemma py_split_nonempty: "py_split sep s \<noteq> []"
  by (induction sep s rule: py_split.induct) (auto split: list.splits)

lemma py_find_None_split:
  "sep \<noteq> [] \<Longrightarrow> py_find sep s = None \<Longrightarrow> py_split sep s = [s]"
  by (induction s) (auto split: if_splits)

lemma py_find_Some_split:
  "sep \<noteq> [] \<Longrightarrow> py_find sep s = Some i
     \<Longrightarrow> py_split sep s = take i s # py_split sep (drop (i + length sep) s)"
proof (induction s arbitrary: i)
  case Nil
  then show ?case by simp
next
  case (Cons c cs)
  show ?case
  proof (cases "prefix sep (c # cs)")
    case True
    with Cons.prems show ?thesis by simp
  next
    case False
    with Cons.prems obtain i' where i': "py_find sep cs = Some i'" "i = Suc i'"
      by auto
    from Cons.IH [OF Cons.prems(1) i'(1)] False i'(2) show ?thesis
      by simp
  qed
qed

lemma py_find_Some_prefix:
  "py_find sep s = Some i \<Longrightarrow> prefix sep (drop i s) \<and> i + length sep \<le> length s"
proof (induction s arbitrary: i)
  case Nil
  then show ?case by (simp split: if_splits)
next
  case (Cons c cs)
  show ?case
  proof (cases "prefix sep (c # cs)")
    case True
    with Cons.prems show ?thesis by (auto dest: prefix_length_le)
  next
    case False
    with Cons.prems obtain i' where i': "py_find sep cs = Some i'" "i = Suc i'"
      by auto
    from Cons.IH [OF i'(1)] i'(2) show ?thesis by simp
  qed
qed

lemma sublist_iff_py_find: "sublist sep s \<longleftrightarrow> py_find sep s \<noteq> None"
  by (induction s) (auto simp: sublist_Cons_right)

lemma py_find_take:
  "py_find sep s = Some j \<Longrightarrow> j + length sep \<le> k \<Longrightarrow> py_find sep (take k s) = Some j"
proof (induction s arbitrary: j k)
  case Nil
  then show ?case by simp
next
  case (Cons c cs)
  show ?case
  proof (cases "prefix sep (c # cs)")
    case True
    with Cons.prems have j: "j = 0" by simp
    from True obtain r where r: "c # cs = sep @ r" by (auto simp: prefix_def)
    from Cons.prems(2) j have "take k (sep @ r) = sep @ take (k - length sep) r"
      by simp
    then have "prefix sep (take k (c # cs))" unfolding r by simp
    then show ?thesis using j by (cases "take k (c # cs)") (auto simp: prefix_def)
  next
    case False
    with Cons.prems obtain j' where j': "py_find sep cs = Some j'" "j = Suc j'"
      by auto
    with Cons.prems(2) obtain k' where k': "k = Suc k'" "j' + length sep \<le> k'"
      by (cases k) auto
    have "\<not> prefix sep (c # take k' cs)"
    proof
      assume "prefix sep (c # take k' cs)"
      moreover have "prefix (c # take k' cs) (c # cs)" by (simp add: take_is_prefix)
      ultimately have "prefix sep (c # cs)" by (rule prefix_order.trans)
      with False show False by simp
    qed
    with Cons.IH [OF j'(1) k'(2)] j'(2) k'(1) show ?thesis by simp
  qed
qed

lemma hd_py_split:
  assumes "sep \<noteq> []"
  shows "hd (py_split sep s) = (case py_find sep s of None \<Rightarrow> s | Some i \<Rightarrow> take i s)"
  using assms by (auto simp: py_find_None_split py_find_Some_split split: option.splits)


lemma py_split_set: "p \<in> set (py_split sep s) \<Longrightarrow> set p \<subseteq> set s"
proof (induction sep s arbitrary: p rule: py_split.induct)
  case (1 sep)
  then show ?case by simp
next
  case (2 sep c cs)
  show ?case
  proof (cases "sep \<noteq> [] \<and> prefix sep (c # cs)")
    case True
    with "2.prems" have "p = [] \<or> p \<in> set (py_split sep (drop (length sep) (c # cs)))"
      by auto
    then show ?thesis
    proof
      assume "p = []"
      then show ?thesis by simp
    next
      assume "p \<in> set (py_split sep (drop (length sep) (c # cs)))"
      from "2.IH"(1) [OF True this] have "set p \<subseteq> set (drop (length sep) (c # cs))" .
      also have "\<dots> \<subseteq> set (c # cs)" by (rule set_drop_subset)
      finally show ?thesis .
    qed
  next
    case False
    obtain q qs where q: "py_split sep cs = q # qs"
      using py_split_nonempty [of sep cs] by (cases "py_split sep cs") auto
    with False "2.prems" have "p = c # q \<or> p \<in> set qs" by auto
    then show ?thesis
    proof
      assume "p = c # q"
      moreover from "2.IH"(2) [OF False, of q] q have "set q \<subseteq> set cs" by simp
      ultimately show ?thesis by auto
    next
      assume "p \<in> set qs"
      with "2.IH"(2) [OF False, of p] q have "set p \<subseteq> set cs" by simp
      then show ?thesis by auto
    qed
  qed
qed

lemma clean_context_set: "set (clean_context context) \<subseteq> insert (CHR '' '') (set context)"
proof
  fix x
  assume "x \<in> set (clean_context context)"
  then obtain line where "line \<in> set (py_split [CHR 0x0A] context)" and "x \<in> set (line @ '' '')"
    unfolding clean_context_def set_concat set_map by (auto split: if_splits)
  with py_split_set [of line "[CHR 0x0A]" "context"]
  show "x \<in> insert (CHR '' '') (set context)" by auto
qed

lemma py_find_Some_set:
  assumes "py_find sep s = Some i"
  shows "set sep \<subseteq> set s"
proof -
  from py_find_Some_prefix [OF assms] have "prefix sep (drop i s)" by simp
  then have "set sep \<subseteq> set (drop i s)" by (rule set_mono_prefix)
  also have "\<dots> \<subseteq> set s" by (rule set_drop_subset)
  finally show ?thesis .
qed

lemma marker_needs_text:
  assumes "py_find ''Normal Operating Range:'' (clean_context context) = Some i"
  shows "context \<noteq> [] \<and> py_strip context \<noteq> []"
proof -
  from py_find_Some_set [OF assms] have "CHR ''N'' \<in> set (clean_context context)"
    by auto
  with clean_context_set have n: "CHR ''N'' \<in> set context" by auto
  have "\<not> py_isspace (CHR ''N'')" by (simp add: py_isspace_def py_whitespace_def)
  with n have "CHR ''N'' \<in> set (py_strip context)" by (rule py_strip_keeps)
  with n show ?thesis by auto
qed

text \<open>
  C8 (as the code has it). Let the cleaned context be the context without its
  source-annotation lines, the other lines joined by spaces. For every query whose
  lowercase form contains "temperature" and "range", when the cleaned context has its
  first "Normal Operating Range:" at \<open>i\<close>, the text after it has its first
  "High Alarm Setpoint:" at \<open>j\<close>, and no further "Normal Operating Range:" starts before
  the end of that marker, the answer is the trimmed text between the two markers
  wrapped as "The normal operating temperature range is X." whatever else the query
  contains: the rule is tried before the alarm/procedure and calibration rules.
\<close>

theorem C8_temperature_range_rule:
  assumes "sublist ''temperature'' (py_lower query)"
    and "sublist ''range'' (py_lower query)"
    and "py_find ''Normal Operating Range:'' (clean_context context) = Some i"
    and "rest = drop (i + length ''Normal Operating Range:'') (clean_context context)"
    and "py_find ''High Alarm Setpoint:'' rest = Some j"
    and "\<forall>k. py_find ''Normal Operating Range:'' rest = Some k
           \<longrightarrow> j + length ''High Alarm Setpoint:'' \<le> k"
  shows "generate_answer query context =
           ''The normal operating temperature range is '' @ py_strip (take j rest) @ ''.''"
proof -
  let ?M1 = "''Normal Operating Range:''" and ?M2 = "''High Alarm Setpoint:''"
  define clean where "clean = clean_context context"
  define parts where "parts = py_split ?M1 clean"
  define P where "P = hd (py_split ?M1 rest)"
  have find1: "py_find ?M1 clean = Some i" using assms(3) by (simp add: clean_def)
  then have has1: "sublist ?M1 clean" by (simp add: sublist_iff_py_find)
  have parts: "parts = take i clean # py_split ?M1 rest"
    unfolding parts_def assms(4) clean_def [symmetric]
    using find1 by (intro py_find_Some_split) simp_all
  obtain q qs where q: "py_split ?M1 rest = q # qs"
    using py_split_nonempty [of ?M1 rest] by (cases "py_split ?M1 rest") auto
  have len: "length parts > 1" and nth: "parts ! 1 = P"
    by (simp_all add: parts q P_def)
  have P: "P = (case py_find ?M1 rest of None \<Rightarrow> rest | Some k \<Rightarrow> take k rest)"
    unfolding P_def by (intro hd_py_split) simp
  have findP: "py_find ?M2 P = Some j \<and> take j P = take j rest"
  proof (cases "py_find ?M1 rest")
    case None
    with P assms(5) show ?thesis by simp
  next
    case (Some k)
    with assms(6) have k: "j + length ?M2 \<le> k" by blast
    from py_find_take [OF assms(5) k] P Some k show ?thesis by (simp add: min_def)
  qed
  have "hd (py_split ?M2 P) = (case py_find ?M2 P of None \<Rightarrow> P | Some n \<Rightarrow> take n P)"
    by (intro hd_py_split) simp
  with findP have hd2: "hd (py_split ?M2 (parts ! 1)) = take j rest"
    unfolding nth by simp
  have rule: "temperature_rule (py_lower query) clean =
      Some (''The normal operating temperature range is '' @ py_strip (take j rest) @ ''.'')"
    unfolding temperature_rule_def parts_def [symmetric] Let_def
    using assms(1,2) has1 len hd2 by simp
  from marker_needs_text [OF assms(3)] show ?thesis
    unfolding generate_answer_def clean_def [symmetric] Let_def
    by (simp add: rule)
qed


theorem C8_temperature_range_rule_witness:
  "sublist ''temperature'' (py_lower ''What is the alarm calibration temperature range?'')
   \<and> sublist ''range'' (py_lower ''What is the alarm calibration temperature range?'')
   \<and> py_find ''Normal Operating Range:'' (clean_context sample_context) = Some 21
   \<and> py_find ''High Alarm Setpoint:''
        (drop (21 + length ''Normal Operating Range:'') (clean_context sample_context)) = Some 9
   \<and> py_find ''Normal Operating Range:''
        (drop (21 + length ''Normal Operating Range:'') (clean_context sample_context)) = None
   \<and> generate_answer ''What is the alarm calibration temperature range?'' sample_context =
        ''The normal operating temperature range is 80-95 C.''"
proof -
  have h1: "sublist ''temperature'' (py_lower ''What is the alarm calibration temperature range?'')"
    by code_simp
  have h2: "sublist ''range'' (py_lower ''What is the alarm calibration temperature range?'')"
    by code_simp
  have h3: "py_find ''Normal Operating Range:'' (clean_context sample_context) = Some 21"
    by code_simp
  have h5: "py_find ''High Alarm Setpoint:''
        (drop (21 + length ''Normal Operating Range:'') (clean_context sample_context)) = Some 9"
    by code_simp
  have h6: "py_find ''Normal Operating Range:''
        (drop (21 + length ''Normal Operating Range:'') (clean_context sample_context)) = None"
    by code_simp
  then have h6': "\<forall>k. py_find ''Normal Operating Range:''
        (drop (21 + length ''Normal Operating Range:'') (clean_context sample_context)) = Some k
           \<longrightarrow> 9 + length ''High Alarm Setpoint:'' \<le> k"
    by simp
  have v: "py_strip (take 9
        (drop (21 + length ''Normal Operating Range:'') (clean_context sample_context)))
      = ''80-95 C''"
    by code_simp
  from C8_temperature_range_rule [OF h1 h2 h3 refl h5 h6']
  have "generate_answer ''What is the alarm calibration temperature range?'' sample_context =
        ''The normal operating temperature range is '' @ ''80-95 C'' @ ''.''"
    unfolding v .
  with h1 h2 h3 h5 h6 show ?thesis by simp
qed

theorem C8_second_marker_counterexample:
  "sublist ''temperature'' (py_lower ''temperature range'')
   \<and> sublist ''range'' (py_lower ''temperature range'')
   \<and> sample_context_twice =
        ''Normal Operating Range:'' @ '' see Normal Operating Range: 80-95 C ''
          @ ''High Alarm Setpoint:'' @ '' 100 C''
   \<and> generate_answer ''temperature range'' sample_context_twice =
        ''The normal operating temperature range is see.''"
  by code_simp

section \<open>Properties of the trend analysis\<close>



















section \<open>Properties of the pipelines\<close>











end
